theory Spec2Isabelle
  imports Complex_Main
begin

section \<open>The task-progress controller (\<open>StudioModule._performTaskWithProgress\<close>)\<close>

text \<open>
  The controller is an \<open>async\<close> method. JavaScript runs it on one thread: code between two
  \<open>await\<close>s runs without interruption, and at an \<open>await\<close> anything else may run (a button
  handler, a timer of the simulator, another call of the method). The model therefore has
  one function per stretch of code between two \<open>await\<close>s, each taking the shared fields of
  the component as it finds them and returning them updated, and an event loop that runs
  one stretch per event.

  Numbers: \<open>Date.now()\<close> and the stage durations are integers (milliseconds), \<open>elapsed\<close> is
  a natural number (it starts at 0 and only ever grows by 50), \<open>progress\<close> is a rational:
  the quotient of line 52 is taken exactly, without floating-point rounding.
\<close>

subsection \<open>The fields of the component\<close>

record controller =
  isLoading :: bool
  progress :: rat
  statusMessage :: string
  isPaused :: bool
  stopFlag :: bool

record stage =
  message :: string
  duration :: int

text \<open>
  A thrown value is any JavaScript value (\<open>taskError: any\<close>), and lines 75 and 95 test it
  for truthiness, so the model keeps the values that differ there.
\<close>

datatype jsval = JUndefined | JNull | JBool bool | JNum int | JStr string | JError string

fun truthy :: "jsval \<Rightarrow> bool" where
  "truthy JUndefined = False"
| "truthy JNull = False"
| "truthy (JBool b) = b"
| "truthy (JNum n) = (n \<noteq> 0)"
| "truthy (JStr s) = (s \<noteq> [])"
| "truthy (JError m) = True"

subsection \<open>The progress simulator (lines 38 to 56)\<close>

text \<open>
  The simulator is suspended at one of three \<open>await\<close>s: the pause poll at the head of a
  stage (line 41), the pause poll inside the tick loop (line 47), or the 50ms tick
  (line 49). \<open>sim_rest\<close> is the stage being played followed by the stages still to come.
\<close>

datatype sim_pc = PauseStage | PauseTick | Tick | SimDone

record sim =
  sim_pc :: sim_pc
  sim_rest :: "stage list"
  start :: int
  elapsed :: nat

text \<open>
  Line 52, \<open>Math.min(100, (elapsed / totalDuration) * 100)\<close>. It is evaluated right after
  \<open>elapsed += 50\<close>, so the dividend is positive: when \<open>totalDuration\<close> is 0 the quotient is
  \<open>+Infinity\<close> and \<open>Math.min\<close> returns 100.
\<close>

definition tick_progress :: "nat \<Rightarrow> int \<Rightarrow> rat" where
  "tick_progress el totalDuration =
     (if totalDuration = 0 then 100
      else min 100 (of_nat el / of_int totalDuration * 100))"

definition sim_done :: "int \<Rightarrow> nat \<Rightarrow> sim" where
  "sim_done st el = \<lparr>sim_pc = SimDone, sim_rest = [], start = st, elapsed = el\<rparr>"

text \<open>
  \<open>stage_loop\<close> is the head of the \<open>for\<close> loop (lines 39 to 41), \<open>stage_body\<close> lines 43 and
  44, \<open>tick_loop\<close> the head of the \<open>while\<close> loop (lines 45 to 47). Each runs until the next
  \<open>await\<close> or the end of the simulator; \<open>now\<close> is \<open>Date.now()\<close>. A \<open>break\<close> out of the
  \<open>while\<close> loop continues with the next iteration of the \<open>for\<close> loop.
\<close>

fun stage_loop :: "int \<Rightarrow> stage list \<Rightarrow> nat \<Rightarrow> controller \<Rightarrow> controller \<times> sim"
and stage_body :: "int \<Rightarrow> stage \<Rightarrow> stage list \<Rightarrow> nat \<Rightarrow> controller \<Rightarrow> controller \<times> sim"
and tick_loop :: "int \<Rightarrow> int \<Rightarrow> stage \<Rightarrow> stage list \<Rightarrow> nat \<Rightarrow> controller \<Rightarrow> controller \<times> sim"
where
  "stage_loop now [] el c = (c, sim_done now el)"
| "stage_loop now (s # ss) el c =
     (if stopFlag c then (c, sim_done now el)
      else if isPaused c \<and> \<not> stopFlag c
        then (c, \<lparr>sim_pc = PauseStage, sim_rest = s # ss, start = now, elapsed = el\<rparr>)
      else stage_body now s ss el c)"
| "stage_body now s ss el c =
     tick_loop now now s ss el (c\<lparr>statusMessage := message s\<rparr>)"
| "tick_loop now st s ss el c =
     (if now - st < duration s then
        (if stopFlag c then stage_loop now ss el c
         else if isPaused c \<and> \<not> stopFlag c
           then (c, \<lparr>sim_pc = PauseTick, sim_rest = s # ss, start = st, elapsed = el\<rparr>)
         else (c, \<lparr>sim_pc = Tick, sim_rest = s # ss, start = st, elapsed = el\<rparr>))
      else stage_loop now ss el c)"

text \<open>The delay of the timer the simulator is waiting for.\<close>

fun sim_delay :: "sim_pc \<Rightarrow> int" where
  "sim_delay PauseStage = 200"
| "sim_delay PauseTick = 200"
| "sim_delay Tick = 50"
| "sim_delay SimDone = 0"

text \<open>
  The simulator's timer has fired at time \<open>now\<close>: it runs from its \<open>await\<close> to the next one.
  After a pause poll that finds the pause over, line 41 falls through to line 43 and
  line 47 to the tick of line 49, in both cases without looking at the stop flag.
\<close>

definition sim_resume :: "bool \<Rightarrow> int \<Rightarrow> int \<Rightarrow> controller \<Rightarrow> sim \<Rightarrow> controller \<times> sim" where
  "sim_resume isLongTask totalDuration now c s =
     (case sim_pc s of
        PauseStage \<Rightarrow>
          (if isPaused c \<and> \<not> stopFlag c then (c, s)
           else (case sim_rest s of
                   [] \<Rightarrow> (c, sim_done (start s) (elapsed s))
                 | st # ss \<Rightarrow> stage_body now st ss (elapsed s) c))
      | PauseTick \<Rightarrow>
          (if isPaused c \<and> \<not> stopFlag c then (c, s) else (c, s\<lparr>sim_pc := Tick\<rparr>))
      | Tick \<Rightarrow>
          (let el = elapsed s + 50;
               c' = (if \<not> isLongTask then c\<lparr>progress := tick_progress el totalDuration\<rparr> else c)
           in case sim_rest s of
                [] \<Rightarrow> (c', sim_done (start s) el)
              | st # ss \<Rightarrow> tick_loop now (start s) st ss el c')
      | SimDone \<Rightarrow> (c, s))"

subsection \<open>The method itself\<close>

text \<open>
  The method is suspended at the \<open>await\<close> of the task (line 64), of the race (line 62), of
  the simulator in the \<open>finally\<close> block (line 71) or of the settle delay (line 86).
  \<open>None\<close> is \<open>undefined\<close> in \<open>taskResult\<close> and in the returned value.
\<close>

datatype main_pc = AwaitTask | AwaitRace | AwaitProgress | AwaitSettle | Settled

datatype 'a outcome = Returned "'a option" | Threw jsval

datatype 'a settlement = Resolves 'a | Rejects jsval

record 'a run =
  isLongTask :: bool
  run_total :: int
  simulator :: sim
  sim_due :: int
  main_pc :: main_pc
  task_pending :: bool
  taskResult :: "'a option"
  taskError :: jsval
  settle_due :: int
  outcome :: "'a outcome option"

text \<open>Lines 73 to 83, the \<open>finally\<close> block after the simulator has been awaited.\<close>

definition finally_block :: "controller \<Rightarrow> jsval \<Rightarrow> controller" where
  "finally_block c err =
     (let c1 = (if stopFlag c then c\<lparr>statusMessage := ''Task stopped by user.''\<rparr>
                else if truthy err then c\<lparr>statusMessage := ''An error occurred.''\<rparr>
                else c\<lparr>statusMessage := ''Complete!'', progress := 100\<rparr>)
      in c1\<lparr>isLoading := False, isPaused := False\<rparr>)"

text \<open>Lines 88 to 99, the code after the settle delay.\<close>

definition epilogue :: "controller \<Rightarrow> 'a option \<Rightarrow> jsval \<Rightarrow> controller \<times> 'a outcome" where
  "epilogue c res err =
     (let c1 = (if \<not> isLoading c
                then c\<lparr>statusMessage := [], progress := 0, stopFlag := False\<rparr> else c)
      in if truthy err \<and> \<not> stopFlag c1 then (c1, Threw err)
         else (c1, Returned (if stopFlag c1 then None else res)))"

definition finish_finally :: "int \<Rightarrow> controller \<Rightarrow> 'a run \<Rightarrow> controller \<times> 'a run" where
  "finish_finally now c r =
     (finally_block c (taskError r), r\<lparr>main_pc := AwaitSettle, settle_due := now + 1500\<rparr>)"

text \<open>Line 71: the simulator is awaited unless the stop flag is set.\<close>

definition enter_finally :: "int \<Rightarrow> controller \<Rightarrow> 'a run \<Rightarrow> controller \<times> 'a run" where
  "enter_finally now c r =
     (if \<not> stopFlag c \<and> sim_pc (simulator r) \<noteq> SimDone
      then (c, r\<lparr>main_pc := AwaitProgress\<rparr>)
      else finish_finally now c r)"

text \<open>
  The task's promise settles. While the method awaits it (line 64) or the race (line 62)
  the value or the error is taken (line 67 for the error); a settlement that comes after
  the race was decided is dropped.
\<close>

definition task_settle :: "int \<Rightarrow> controller \<Rightarrow> 'a run \<Rightarrow> 'a settlement \<Rightarrow> controller \<times> 'a run" where
  "task_settle now c r st =
     (let r' = r\<lparr>task_pending := False\<rparr>
      in if main_pc r = AwaitTask \<or> main_pc r = AwaitRace
         then (case st of
                 Resolves v \<Rightarrow> enter_finally now c (r'\<lparr>taskResult := Some v\<rparr>)
               | Rejects e \<Rightarrow> enter_finally now c (r'\<lparr>taskError := e\<rparr>))
         else (c, r'))"

text \<open>
  The simulator's timer fires. When the simulator ends, a method waiting on the race takes
  \<open>undefined\<close> as the result (line 62) and one waiting in the \<open>finally\<close> block goes on.
\<close>

definition sim_fire :: "int \<Rightarrow> controller \<Rightarrow> 'a run \<Rightarrow> controller \<times> 'a run" where
  "sim_fire now c r =
     (let (c', s') = sim_resume (isLongTask r) (run_total r) now c (simulator r);
          r' = r\<lparr>simulator := s', sim_due := now + sim_delay (sim_pc s')\<rparr>
      in if sim_pc s' = SimDone then
           (case main_pc r of
              AwaitRace \<Rightarrow> enter_finally now c' (r'\<lparr>taskResult := None\<rparr>)
            | AwaitProgress \<Rightarrow> finish_finally now c' r'
            | _ \<Rightarrow> (c', r'))
         else (c', r'))"

definition settle_fire :: "controller \<Rightarrow> 'a run \<Rightarrow> controller \<times> 'a run" where
  "settle_fire c r =
     (let (c', out) = epilogue c (taskResult r) (taskError r)
      in (c', r\<lparr>main_pc := Settled, outcome := Some out\<rparr>))"

text \<open>
  The call itself, lines 27 to 65, up to the first \<open>await\<close> that lets other events in.
  \<open>imm\<close> is for a task that is ahead of the simulator in the microtasks of the call: its
  promise is settled when \<open>task()\<close> returns it, or \<open>task()\<close> threw, or it settles one
  microtask later (an \<open>async\<close> task that returns after a single \<open>await\<close> of a settled
  promise), which is still before the \<open>then\<close> of line 62 can hand its \<open>undefined\<close> to the
  race. Such a task wins a race (line 62) even against a simulator that has ended. \<open>None\<close> is
  a task that settles later than that, in an event of its own; against it a simulator that
  has already ended (no stage to play) wins the race inside the call.
\<close>

definition start_run ::
  "int \<Rightarrow> stage list \<Rightarrow> bool \<Rightarrow> 'a settlement option \<Rightarrow> controller \<Rightarrow> controller \<times> 'a run" where
  "start_run now stages isLong imm c =
     (let c1 = c\<lparr>isLoading := True, isPaused := False, stopFlag := False,
                 progress := 0, statusMessage := []\<rparr>;
          totalDuration = sum_list (map duration stages);
          (c2, s) = stage_loop now stages 0 c1;
          r = \<lparr>isLongTask = isLong, run_total = totalDuration, simulator = s,
               sim_due = now + sim_delay (sim_pc s),
               main_pc = (if isLong then AwaitRace else AwaitTask),
               task_pending = True, taskResult = None, taskError = JUndefined,
               settle_due = 0, outcome = None\<rparr>
      in case imm of
           Some st \<Rightarrow> task_settle now c2 r st
         | None \<Rightarrow>
             (if isLong \<and> sim_pc s = SimDone
              then enter_finally now c2 (r\<lparr>taskResult := None\<rparr>)
              else (c2, r)))"

subsection \<open>The event loop\<close>

text \<open>
  The component, the clock and the calls of the method made so far. The two buttons are
  drawn only while \<open>isLoading\<close> is set (line 103), a timer fires no earlier than it is due,
  and a task settles once.
\<close>

record 'a system =
  ctl :: controller
  clock :: int
  runs :: "'a run list"

datatype 'a event =
    Start "stage list" bool "'a settlement option"
  | TaskSettles nat "'a settlement"
  | SimTimer nat
  | SettleTimer nat
  | Advance nat
  | ClickPause
  | ClickStop

definition put_run :: "'a system \<Rightarrow> nat \<Rightarrow> controller \<times> 'a run \<Rightarrow> 'a system" where
  "put_run sys i cr = sys\<lparr>ctl := fst cr, runs := (runs sys)[i := snd cr]\<rparr>"

fun exec_event :: "'a event \<Rightarrow> 'a system \<Rightarrow> 'a system option" where
  "exec_event (Start stages isLong imm) sys =
     (let (c, r) = start_run (clock sys) stages isLong imm (ctl sys)
      in Some (sys\<lparr>ctl := c, runs := runs sys @ [r]\<rparr>))"
| "exec_event (TaskSettles i st) sys =
     (if i < length (runs sys) \<and> task_pending (runs sys ! i)
      then Some (put_run sys i (task_settle (clock sys) (ctl sys) (runs sys ! i) st))
      else None)"
| "exec_event (SimTimer i) sys =
     (if i < length (runs sys) \<and> sim_pc (simulator (runs sys ! i)) \<noteq> SimDone
         \<and> sim_due (runs sys ! i) \<le> clock sys
      then Some (put_run sys i (sim_fire (clock sys) (ctl sys) (runs sys ! i)))
      else None)"
| "exec_event (SettleTimer i) sys =
     (if i < length (runs sys) \<and> main_pc (runs sys ! i) = AwaitSettle
         \<and> settle_due (runs sys ! i) \<le> clock sys
      then Some (put_run sys i (settle_fire (ctl sys) (runs sys ! i)))
      else None)"
| "exec_event (Advance d) sys = Some (sys\<lparr>clock := clock sys + int d\<rparr>)"
| "exec_event ClickPause sys =
     (if isLoading (ctl sys)
      then Some (sys\<lparr>ctl := (ctl sys)\<lparr>isPaused := \<not> isPaused (ctl sys)\<rparr>\<rparr>)
      else None)"
| "exec_event ClickStop sys =
     (if isLoading (ctl sys)
      then Some (sys\<lparr>ctl := (ctl sys)\<lparr>stopFlag := True\<rparr>\<rparr>)
      else None)"

fun exec :: "'a event list \<Rightarrow> 'a system \<Rightarrow> 'a system option" where
  "exec [] sys = Some sys"
| "exec (e # es) sys = (case exec_event e sys of None \<Rightarrow> None | Some sys' \<Rightarrow> exec es sys')"

text \<open>The component as constructed (lines 15 to 19), at time 0, with no call made.\<close>

definition idle :: controller where
  "idle = \<lparr>isLoading = False, progress = 0, statusMessage = [], isPaused = False,
           stopFlag = False\<rparr>"

definition boot :: "'a system" where
  "boot = \<lparr>ctl = idle, clock = 0, runs = []\<rparr>"

subsection \<open>The simulator on its own\<close>

text \<open>
  The simulator played alone: nothing else writes the component, and each of its timers
  fires \<open>late\<close> milliseconds after it is due, one entry of the list per timer
  (\<open>setTimeout\<close> promises no more than "not before"). The result is the time of the last
  timer, the component and the simulator.
\<close>

fun sim_play ::
  "bool \<Rightarrow> int \<Rightarrow> nat list \<Rightarrow> int \<Rightarrow> controller \<times> sim \<Rightarrow> int \<times> controller \<times> sim" where
  "sim_play isLong totalDuration [] now cs = (now, cs)"
| "sim_play isLong totalDuration (late # lates) now (c, s) =
     (if sim_pc s = SimDone then (now, c, s)
      else (let now' = now + sim_delay (sim_pc s) + int late
            in sim_play isLong totalDuration lates now'
                 (sim_resume isLong totalDuration now' c s)))"

text \<open>The stage whose label the simulator has shown last.\<close>

definition current_stage :: "stage list \<Rightarrow> sim \<Rightarrow> stage" where
  "current_stage stages s = (case sim_rest s of [] \<Rightarrow> last stages | st # _ \<Rightarrow> st)"

subsection \<open>Invariants of the controller\<close>

text \<open>
  A simulator that is played alone from the start of a run at time \<open>t0\<close>, with timers on
  time and the run neither paused nor stopped, is on track: \<open>elapsed\<close> is the time since
  \<open>t0\<close>, \<open>progress\<close> is what the last tick computed, and either the simulator is in a tick
  of a stage whose label is shown and that began no earlier than the durations of the
  stages before it add up to, or it has ended, showing the label of the last stage, no
  earlier than all durations add up to.
\<close>

definition on_track :: "int \<Rightarrow> stage list \<Rightarrow> int \<times> controller \<times> sim \<Rightarrow> bool" where
  "on_track t0 stages x \<longleftrightarrow>
     (case x of (now, c, s) \<Rightarrow>
        \<not> isPaused c \<and> \<not> stopFlag c \<and> int (elapsed s) = now - t0 \<and>
        (if elapsed s = 0 then progress c = 0
         else progress c = tick_progress (elapsed s) (sum_list (map duration stages))) \<and>
        (sim_pc s = Tick \<and>
           (\<exists>pre cur post. stages = pre @ cur # post \<and> sim_rest s = cur # post \<and>
              statusMessage c = message cur \<and> now - start s < duration cur \<and>
              sum_list (map duration pre) \<le> start s - t0)
         \<or> sim_pc s = SimDone \<and> sim_rest s = [] \<and> stages \<noteq> [] \<and>
             statusMessage c = message (last stages) \<and>
             sum_list (map duration stages) \<le> now - t0))"




section \<open>The playback engine (\<open>WhisperMusicStudio\<close>)\<close>

text \<open>
  The shell owns the audio context, the source node that is playing and the fields the
  player bar shows. Source nodes are created by \<open>_playCurrentTrack\<close> and never reused, so
  the model keeps every node made so far in a list and \<open>currentSourceNode\<close> is an index
  into it (\<open>None\<close> is \<open>null\<close>). Of a node the model keeps what the engine does to it: the
  buffer and offset it was started with, whether \<open>stop()\<close> was called, and whether the
  \<open>onended\<close> handler is attached. Times are readings of \<open>audioContext.currentTime\<close>, passed
  in by the caller, and \<open>frames\<close> are the animation-frame requests not yet run or cancelled.
\<close>

record track =
  title :: string
  artist :: string
  track_duration :: rat
  audioBuffer :: "nat option"

record source_node =
  buffer :: nat
  start_offset :: rat
  stopped :: bool
  onended :: bool

record player =
  audioContext :: bool
  suspended :: bool
  analyser :: bool
  currentTrack :: track
  currentSourceNode :: "nat option"
  nodes :: "source_node list"
  trackStartTime :: rat
  pausedTime :: rat
  isPlaying :: bool
  currentTime :: rat
  barHeights :: "rat list"
  animationFrameId :: nat
  frames :: "nat list"
  next_frame :: nat

text \<open>
  The shell as constructed (lines 294 to 342 of the shell): the context is \<open>null\<close> when
  \<open>new AudioContext()\<close> throws, and a browser may hand it out suspended.
\<close>

definition new_player :: "bool \<Rightarrow> bool \<Rightarrow> player" where
  "new_player ctx susp =
     \<lparr>audioContext = ctx, suspended = susp, analyser = False,
      currentTrack = \<lparr>title = ''Untitled'', artist = ''J Agent'', track_duration = 0,
                      audioBuffer = None\<rparr>,
      currentSourceNode = None, nodes = [], trackStartTime = 0, pausedTime = 0,
      isPlaying = False, currentTime = 0, barHeights = replicate 50 2,
      animationFrameId = 0, frames = [], next_frame = 1\<rparr>"

text \<open>
  \<open>_animateVisualizer\<close>; \<open>freq\<close> is what the analyser writes into \<open>frequencyData\<close>, which is
  allocated together with the analyser.
\<close>

definition animateVisualizer :: "rat \<Rightarrow> nat list \<Rightarrow> player \<Rightarrow> player" where
  "animateVisualizer now freq p =
     (if \<not> isPlaying p \<or> currentSourceNode p = None then p
      else (let p1 = (if analyser p
                      then p\<lparr>barHeights := map (\<lambda>v. 2 + of_nat v / 255 * 20) (take 50 freq)\<rparr>
                      else p);
                p2 = (if audioContext p1
                      then p1\<lparr>currentTime := now - trackStartTime p1\<rparr> else p1)
            in p2\<lparr>animationFrameId := next_frame p2,
                  frames := frames p2 @ [next_frame p2],
                  next_frame := next_frame p2 + 1\<rparr>))"

text \<open>\<open>_pauseCurrentTrack\<close>.\<close>

definition pauseCurrentTrack :: "rat \<Rightarrow> player \<Rightarrow> player" where
  "pauseCurrentTrack now p =
     (case currentSourceNode p of
        None \<Rightarrow> p
      | Some n \<Rightarrow>
          (if \<not> audioContext p then p
           else p\<lparr>pausedTime := now - trackStartTime p,
                  nodes := (nodes p)[n := (nodes p ! n)\<lparr>stopped := True, onended := False\<rparr>],
                  currentSourceNode := None,
                  isPlaying := False,
                  frames := removeAll (animationFrameId p) (frames p),
                  barHeights := replicate 50 2\<rparr>))"

text \<open>\<open>_playCurrentTrack\<close>.\<close>

definition playCurrentTrack :: "rat \<Rightarrow> nat list \<Rightarrow> player \<Rightarrow> player" where
  "playCurrentTrack now freq p =
     (if \<not> audioContext p then p
      else (case audioBuffer (currentTrack p) of
              None \<Rightarrow> p
            | Some b \<Rightarrow>
                (let p1 = (if suspended p then p\<lparr>suspended := False\<rparr> else p);
                     source = \<lparr>buffer = b, start_offset = pausedTime p1, stopped = False,
                               onended = True\<rparr>;
                     p2 = p1\<lparr>analyser := True,
                             nodes := nodes p1 @ [source],
                             currentSourceNode := Some (length (nodes p1)),
                             trackStartTime := now - pausedTime p1,
                             isPlaying := True\<rparr>
                 in animateVisualizer now freq p2)))"

text \<open>The \<open>onended\<close> handler that \<open>_playCurrentTrack\<close> attaches to a source.\<close>

definition source_ended :: "rat \<Rightarrow> player \<Rightarrow> player" where
  "source_ended now p =
     (if isPlaying p then (pauseCurrentTrack now p)\<lparr>currentTime := 0, pausedTime := 0\<rparr>
      else p)"

text \<open>\<open>_togglePlay\<close> and \<open>_updateTrack\<close>.\<close>

definition togglePlay :: "rat \<Rightarrow> nat list \<Rightarrow> player \<Rightarrow> player" where
  "togglePlay now freq p =
     (if audioBuffer (currentTrack p) = None then p
      else if isPlaying p then pauseCurrentTrack now p
      else playCurrentTrack now freq p)"

definition updateTrack :: "track \<Rightarrow> rat \<Rightarrow> player \<Rightarrow> player" where
  "updateTrack t now p =
     (pauseCurrentTrack now p)\<lparr>currentTrack := t, isPlaying := False, currentTime := 0,
                               pausedTime := 0\<rparr>"

text \<open>
  What can happen to the shell: the two entry points it publishes, the browser running a
  source's \<open>onended\<close> handler (only while one is attached), and the browser running a
  requested animation frame.
\<close>

datatype player_event =
    TogglePlay rat "nat list"
  | UpdateTrack track rat
  | Ended nat rat
  | Frame nat rat "nat list"

fun player_step :: "player_event \<Rightarrow> player \<Rightarrow> player option" where
  "player_step (TogglePlay now freq) p = Some (togglePlay now freq p)"
| "player_step (UpdateTrack t now) p = Some (updateTrack t now p)"
| "player_step (Ended n now) p =
     (if n < length (nodes p) \<and> onended (nodes p ! n) then Some (source_ended now p)
      else None)"
| "player_step (Frame i now freq) p =
     (if i \<in> set (frames p)
      then Some (animateVisualizer now freq (p\<lparr>frames := removeAll i (frames p)\<rparr>))
      else None)"

fun player_exec :: "player_event list \<Rightarrow> player \<Rightarrow> player option" where
  "player_exec [] p = Some p"
| "player_exec (e # es) p =
     (case player_step e p of None \<Rightarrow> None | Some p' \<Rightarrow> player_exec es p')"

text \<open>A source is active while it has not been stopped or still has its handler.\<close>

definition active_nodes :: "player \<Rightarrow> nat list" where
  "active_nodes p =
     filter (\<lambda>n. \<not> stopped (nodes p ! n) \<or> onended (nodes p ! n)) [0 ..< length (nodes p)]"

text \<open>
  What holds of the shell after any sequence of events: it plays exactly when it has a
  current source, that source is the only one not stopped and the only one with a handler,
  and the only animation frame requested is the one \<open>animationFrameId\<close> names.
\<close>

definition player_ok :: "player \<Rightarrow> bool" where
  "player_ok p \<longleftrightarrow>
     (isPlaying p \<longleftrightarrow> currentSourceNode p \<noteq> None) \<and>
     (isPlaying p \<longrightarrow> audioBuffer (currentTrack p) \<noteq> None) \<and>
     (\<forall>n. currentSourceNode p = Some n \<longrightarrow>
        n < length (nodes p) \<and> audioContext p \<and> onended (nodes p ! n) \<and> \<not> stopped (nodes p ! n)) \<and>
     (\<forall>n < length (nodes p). currentSourceNode p \<noteq> Some n \<longrightarrow>
        stopped (nodes p ! n) \<and> \<not> onended (nodes p ! n)) \<and>
     (frames p = [] \<or> (isPlaying p \<and> frames p = [animationFrameId p]))"

section \<open>Scenarios\<close>

text \<open>
  The stage of the scenarios of the specification (100ms), a stage of one tick, and two
  stages of one second.
\<close>

definition stage_x :: stage where
  "stage_x = \<lparr>message = ''x'', duration = 100\<rparr>"

definition stage_y :: stage where
  "stage_y = \<lparr>message = ''y'', duration = 50\<rparr>"

definition stage_a :: stage where
  "stage_a = \<lparr>message = ''a'', duration = 1000\<rparr>"

definition stage_b :: stage where
  "stage_b = \<lparr>message = ''b'', duration = 1000\<rparr>"

text \<open>Two tracks, and the shell after track A was handed over and Play was clicked.\<close>

definition trackA :: track where
  "trackA = \<lparr>title = ''A'', artist = ''a'', track_duration = 30, audioBuffer = Some 1\<rparr>"
definition trackB :: track where
  "trackB = \<lparr>title = ''B'', artist = ''b'', track_duration = 90, audioBuffer = Some 2\<rparr>"

definition playing_a :: player where
  "playing_a =
     \<lparr>audioContext = True, suspended = False, analyser = True, currentTrack = trackA,
      currentSourceNode = Some 0,
      nodes = [\<lparr>buffer = 1, start_offset = 0, stopped = False, onended = True\<rparr>],
      trackStartTime = 1, pausedTime = 0, isPlaying = True, currentTime = 0,
      barHeights = [22, 2], animationFrameId = 1, frames = [1], next_frame = 2\<rparr>"

text \<open>The component 10ms into a run with one stage of 100ms whose task is pending.\<close>

definition running_a :: "nat system" where
  "running_a =
     \<lparr>ctl = \<lparr>isLoading = True, progress = 0, statusMessage = ''x'', isPaused = False,
             stopFlag = False\<rparr>,
      clock = 10,
      runs = [\<lparr>isLongTask = False, run_total = 100,
               simulator = \<lparr>sim_pc = Tick, sim_rest = [stage_x], start = 0, elapsed = 0\<rparr>,
               sim_due = 50, main_pc = AwaitTask, task_pending = True,
               taskResult = None, taskError = JUndefined, settle_due = 0,
               outcome = None\<rparr>]\<rparr>"

lemmas controller_defs =
  boot_def idle_def stage_x_def stage_y_def stage_a_def stage_b_def start_run_def put_run_def sim_fire_def
  sim_resume_def task_settle_def enter_finally_def finish_finally_def finally_block_def
  settle_fire_def epilogue_def sim_done_def tick_progress_def

section \<open>Stopped runs\<close>

lemma finally_block_stopped:
  "stopFlag c \<Longrightarrow> statusMessage (finally_block c err) = ''Task stopped by user.''"
  by (simp add: finally_block_def)

text \<open>
  C1. A run during which the stop flag is set should resolve to \<open>undefined\<close>. The scenario of
  the specification: one stage of 100ms, Stop clicked at 20ms, the task resolves to 42 at
  50ms. The \<open>finally\<close> block shows the stop message, but at the end of the settle delay
  line 92 clears the stop flag before line 99 reads it, and the run returns 42.
\<close>

theorem stopped_run_returns_task_value:
  "map_option (\<lambda>s. (statusMessage (ctl s), stopFlag (ctl s), map main_pc (runs s)))
     (exec [Start [stage_x] False None, Advance 20, ClickStop, Advance 30, SimTimer 0,
            TaskSettles 0 (Resolves (42::nat))] boot)
     = Some (''Task stopped by user.'', True, [AwaitSettle])
   \<and> map_option (\<lambda>s. map outcome (runs s))
     (exec [Start [stage_x] False None, Advance 20, ClickStop, Advance 30, SimTimer 0,
            TaskSettles 0 (Resolves (42::nat)), Advance 1500, SettleTimer 0] boot)
     = Some [Some (Returned (Some 42))]"
  by (simp add: controller_defs)

text \<open>
  C2. A task that throws in a stopped run should not make the run throw. The same scenario
  with a task that rejects at 50ms: the stop flag is cleared by line 92 before line 95
  reads it, and the run throws the task's error.
\<close>

theorem stopped_run_rethrows_task_error:
  "map_option (\<lambda>s. (statusMessage (ctl s), stopFlag (ctl s), map main_pc (runs s)))
     (exec [Start [stage_x] False None, Advance 20, ClickStop, Advance 30, SimTimer 0,
            TaskSettles 0 (Rejects (JError ''boom'') :: nat settlement)] boot)
     = Some (''Task stopped by user.'', True, [AwaitSettle])
   \<and> map_option (\<lambda>s. map outcome (runs s))
     (exec [Start [stage_x] False None, Advance 20, ClickStop, Advance 30, SimTimer 0,
            TaskSettles 0 (Rejects (JError ''boom'') :: nat settlement), Advance 1500,
            SettleTimer 0] boot)
     = Some [Some (Threw (JError ''boom''))]"
  by (simp add: controller_defs)

section \<open>The race of a long task\<close>

text \<open>
  One stage of 50ms and a long task that is still pending when the simulator ends at 50ms:
  the race is decided for the simulator, the run shows \<open>Complete!\<close> and returns
  \<open>undefined\<close> at 1550ms with the task still pending. The task resolves to 42 afterwards,
  and nothing takes the value.
\<close>

lemma long_task_race_trace:
  "exec [Start [stage_y] True None, Advance 50, SimTimer 0] boot
     = Some \<lparr>ctl = \<lparr>isLoading = False, progress = 100, statusMessage = ''Complete!'',
                    isPaused = False, stopFlag = False\<rparr>,
             clock = 50,
             runs = [\<lparr>isLongTask = True, run_total = 50,
                      simulator = \<lparr>sim_pc = SimDone, sim_rest = [], start = 50,
                                   elapsed = 50\<rparr>,
                      sim_due = 50, main_pc = AwaitSettle, task_pending = True,
                      taskResult = None, taskError = JUndefined, settle_due = 1550,
                      outcome = (None :: nat outcome option)\<rparr>]\<rparr>"
  "exec [Start [stage_y] True None, Advance 50, SimTimer 0, Advance 1500, SettleTimer 0] boot
     = Some \<lparr>ctl = idle, clock = 1550,
             runs = [\<lparr>isLongTask = True, run_total = 50,
                      simulator = \<lparr>sim_pc = SimDone, sim_rest = [], start = 50,
                                   elapsed = 50\<rparr>,
                      sim_due = 50, main_pc = Settled, task_pending = True,
                      taskResult = None, taskError = JUndefined, settle_due = 1550,
                      outcome = Some (Returned None :: nat outcome)\<rparr>]\<rparr>"
  "exec [Start [stage_y] True None, Advance 50, SimTimer 0, Advance 1500, SettleTimer 0,
         TaskSettles 0 (Resolves 42)] boot
     = Some \<lparr>ctl = idle, clock = 1550,
             runs = [\<lparr>isLongTask = True, run_total = 50,
                      simulator = \<lparr>sim_pc = SimDone, sim_rest = [], start = 50,
                                   elapsed = 50\<rparr>,
                      sim_due = 50, main_pc = Settled, task_pending = False,
                      taskResult = None, taskError = JUndefined, settle_due = 1550,
                      outcome = Some (Returned None :: nat outcome)\<rparr>]\<rparr>"
  by (simp_all add: controller_defs)

text \<open>
  C3. There is a long-task run, never paused or stopped, in which the simulator ends before
  the task settles: the race gives \<open>undefined\<close>, the run returns \<open>undefined\<close> while the task
  is still pending, and the value the task resolves to later is dropped.
\<close>

theorem long_task_race_returns_undefined:
  "\<exists>evs sys sys'.
     exec evs (boot :: nat system) = Some sys
     \<and> ClickPause \<notin> set evs \<and> ClickStop \<notin> set evs
     \<and> isLongTask (runs sys ! 0)
     \<and> outcome (runs sys ! 0) = Some (Returned None)
     \<and> task_pending (runs sys ! 0)
     \<and> exec (evs @ [TaskSettles 0 (Resolves 42)]) boot = Some sys'
     \<and> outcome (runs sys' ! 0) = Some (Returned None)"
proof -
  let ?evs = "[Start [stage_y] True None, Advance 50, SimTimer 0, Advance 1500,
               SettleTimer 0] :: nat event list"
  show ?thesis
    apply (rule exI [of _ ?evs])
    apply (simp only: append.simps long_task_race_trace)
    apply simp
    done
qed

section \<open>What the simulator leaves alone\<close>

lemma sim_frame:
  "isLoading (fst (stage_loop now ss el c)) = isLoading c
   \<and> isPaused (fst (stage_loop now ss el c)) = isPaused c
   \<and> stopFlag (fst (stage_loop now ss el c)) = stopFlag c"
  "isLoading (fst (stage_body now s ss el c)) = isLoading c
   \<and> isPaused (fst (stage_body now s ss el c)) = isPaused c
   \<and> stopFlag (fst (stage_body now s ss el c)) = stopFlag c"
  "isLoading (fst (tick_loop now st s ss el c)) = isLoading c
   \<and> isPaused (fst (tick_loop now st s ss el c)) = isPaused c
   \<and> stopFlag (fst (tick_loop now st s ss el c)) = stopFlag c"
  by (induction now ss el c and now s ss el c and now st s ss el c
      rule: stage_loop_stage_body_tick_loop.induct) simp_all


lemma sim_elapsed:
  "elapsed (snd (stage_loop now ss el c)) = el"
  "elapsed (snd (stage_body now s ss el c)) = el"
  "elapsed (snd (tick_loop now st s ss el c)) = el"
  by (induction now ss el c and now s ss el c and now st s ss el c
      rule: stage_loop_stage_body_tick_loop.induct) (simp_all add: sim_done_def)

section \<open>The pace of the simulator\<close>

lemma on_track_stage_loop:
  assumes "\<not> isPaused c" "\<not> stopFlag c" "int el = now - t0"
    and "if el = 0 then progress c = 0
         else progress c = tick_progress el (sum_list (map duration stages))"
    and "stages = pre @ rest"
    and "sum_list (map duration pre) \<le> now - t0"
    and "rest = [] \<longrightarrow> pre \<noteq> [] \<and> statusMessage c = message (last pre)"
  shows "on_track t0 stages (now, stage_loop now rest el c)"
  using assms
proof (induction rest arbitrary: pre c)
  case Nil
  then show ?case
    by (simp add: on_track_def sim_done_def)
next
  case (Cons s ss)
  let ?c = "c\<lparr>statusMessage := message s\<rparr>"
  show ?case
  proof (cases "0 < duration s")
    case True
    have "stage_loop now (s # ss) el c
          = (?c, \<lparr>sim_pc = Tick, sim_rest = s # ss, start = now, elapsed = el\<rparr>)"
      using Cons.prems(1,2) True by simp
    moreover have "\<exists>pre' cur post. stages = pre' @ cur # post \<and> s # ss = cur # post \<and>
              message s = message cur \<and> now - now < duration cur \<and>
              sum_list (map duration pre') \<le> now - t0"
      using Cons.prems(5,6) True by (intro exI [of _ pre] exI [of _ s] exI [of _ ss]) simp
    ultimately show ?thesis
      using Cons.prems(1-4) by (simp add: on_track_def)
  next
    case False
    have step: "stage_loop now (s # ss) el c = stage_loop now ss el ?c"
      using Cons.prems(1,2) False by simp
    have "on_track t0 stages (now, stage_loop now ss el ?c)"
    proof (rule Cons.IH [where pre = "pre @ [s]"])
      show "\<not> isPaused ?c" "\<not> stopFlag ?c" using Cons.prems(1,2) by simp_all
      show "int el = now - t0" by (rule Cons.prems(3))
      show "if el = 0 then progress ?c = 0
            else progress ?c = tick_progress el (sum_list (map duration stages))"
        using Cons.prems(4) by simp
      show "stages = (pre @ [s]) @ ss" using Cons.prems(5) by simp
      show "sum_list (map duration (pre @ [s])) \<le> now - t0"
        using Cons.prems(6) False by simp
      show "ss = [] \<longrightarrow> pre @ [s] \<noteq> [] \<and> statusMessage ?c = message (last (pre @ [s]))"
        by simp
    qed
    with step show ?thesis by simp
  qed
qed

lemma on_track_tick:
  assumes ok: "on_track t0 stages (now, c, s)" and tick: "sim_pc s = Tick"
  shows "on_track t0 stages
           (now + 50, sim_resume False (sum_list (map duration stages)) (now + 50) c s)"
proof -
  let ?tot = "sum_list (map duration stages)"
  from ok tick obtain pre cur post where
    flags: "\<not> isPaused c" "\<not> stopFlag c" and el: "int (elapsed s) = now - t0"
    and split: "stages = pre @ cur # post" and rest: "sim_rest s = cur # post"
    and msg: "statusMessage c = message cur" and inside: "now - start s < duration cur"
    and before: "sum_list (map duration pre) \<le> start s - t0"
    by (auto simp: on_track_def)
  let ?el = "elapsed s + 50"
  let ?c = "c\<lparr>progress := tick_progress ?el ?tot\<rparr>"
  have res: "sim_resume False ?tot (now + 50) c s = tick_loop (now + 50) (start s) cur post ?el ?c"
    using tick rest by (simp add: sim_resume_def Let_def del: tick_loop.simps)
  show ?thesis
  proof (cases "now + 50 - start s < duration cur")
    case True
    then have "tick_loop (now + 50) (start s) cur post ?el ?c
               = (?c, \<lparr>sim_pc = Tick, sim_rest = cur # post, start = start s, elapsed = ?el\<rparr>)"
      using flags by simp
    moreover have "\<exists>pre' cur' post'. stages = pre' @ cur' # post' \<and> cur # post = cur' # post' \<and>
              message cur = message cur' \<and> now + 50 - start s < duration cur' \<and>
              sum_list (map duration pre') \<le> start s - t0"
      using split before True by (intro exI [of _ pre] exI [of _ cur] exI [of _ post]) simp
    ultimately show ?thesis
      using flags el msg by (simp add: res on_track_def)
  next
    case False
    then have "tick_loop (now + 50) (start s) cur post ?el ?c = stage_loop (now + 50) post ?el ?c"
      by simp
    moreover have "on_track t0 stages (now + 50, stage_loop (now + 50) post ?el ?c)"
    proof (rule on_track_stage_loop [where pre = "pre @ [cur]"])
      show "\<not> isPaused ?c" "\<not> stopFlag ?c" using flags by simp_all
      show "int ?el = now + 50 - t0" using el by simp
      show "if ?el = 0 then progress ?c = 0 else progress ?c = tick_progress ?el ?tot"
        by simp
      show "stages = (pre @ [cur]) @ post" using split by simp
      show "sum_list (map duration (pre @ [cur])) \<le> now + 50 - t0"
        using before False by simp
      show "post = [] \<longrightarrow> pre @ [cur] \<noteq> [] \<and> statusMessage ?c = message (last (pre @ [cur]))"
        using msg by simp
    qed
    ultimately show ?thesis by (simp add: res)
  qed
qed

lemma on_track_play:
  assumes "on_track t0 stages (now, c, s)"
  shows "case sim_play False (sum_list (map duration stages)) (replicate k 0) now (c, s) of
           (now', c', s') \<Rightarrow>
             on_track t0 stages (now', c', s') \<and>
             (elapsed s' = elapsed s + 50 * k
              \<or> sim_pc s' = SimDone \<and> (\<exists>j<k. elapsed s' = elapsed s + 50 * j))"
  using assms
proof (induction k arbitrary: now c s)
  case 0
  then show ?case by simp
next
  case (Suc k)
  let ?tot = "sum_list (map duration stages)"
  show ?case
  proof (cases "sim_pc s = SimDone")
    case True
    with Suc.prems show ?thesis by auto
  next
    case False
    with Suc.prems have tick: "sim_pc s = Tick"
      by (auto simp: on_track_def)
    obtain c1 s1 where r: "sim_resume False ?tot (now + 50) c s = (c1, s1)"
      by (cases "sim_resume False ?tot (now + 50) c s")
    have ok1: "on_track t0 stages (now + 50, c1, s1)"
      using on_track_tick [OF Suc.prems tick] r by simp
    have el1: "elapsed s1 = elapsed s + 50"
      using ok1 Suc.prems by (simp add: on_track_def)
    have unfold: "sim_play False ?tot (replicate (Suc k) 0) now (c, s)
                  = sim_play False ?tot (replicate k 0) (now + 50) (c1, s1)"
      using tick r by (simp add: Let_def)
    obtain now' c' s' where p: "sim_play False ?tot (replicate k 0) (now + 50) (c1, s1) = (now', c', s')"
      by (cases "sim_play False ?tot (replicate k 0) (now + 50) (c1, s1)")
    from Suc.IH [OF ok1] p
    have ok': "on_track t0 stages (now', c', s')"
      and cnt: "elapsed s' = elapsed s1 + 50 * k
                \<or> sim_pc s' = SimDone \<and> (\<exists>j<k. elapsed s' = elapsed s1 + 50 * j)"
      by simp_all
    from cnt have "elapsed s' = elapsed s + 50 * Suc k
                \<or> sim_pc s' = SimDone \<and> (\<exists>j<Suc k. elapsed s' = elapsed s + 50 * j)"
    proof
      assume "elapsed s' = elapsed s1 + 50 * k"
      then show ?thesis using el1 by simp
    next
      assume "sim_pc s' = SimDone \<and> (\<exists>j<k. elapsed s' = elapsed s1 + 50 * j)"
      then obtain j where "sim_pc s' = SimDone" "j < k" "elapsed s' = elapsed s1 + 50 * j"
        by blast
      then have "sim_pc s' = SimDone \<and> Suc j < Suc k \<and> elapsed s' = elapsed s + 50 * Suc j"
        using el1 by simp
      then show ?thesis by blast
    qed
    with ok' show ?thesis by (subst unfold) (simp add: p)
  qed
qed

lemma tick_progress_full:
  "0 < tot \<Longrightarrow> (tick_progress e tot = 100) = (tot \<le> int e)"
proof -
  assume pos: "0 < tot"
  have "(100 \<le> rat_of_nat e / rat_of_int tot * 100) = (rat_of_int tot \<le> rat_of_nat e)"
    using pos by (simp add: field_simps)
  also have "\<dots> = (tot \<le> int e)"
    by (metis of_int_le_iff of_int_of_nat_eq)
  finally show ?thesis
    using pos by (auto simp: tick_progress_def min_def)
qed

lemma ticks_needed:
  fixes tot :: int
  assumes "0 < tot"
  shows "tot \<le> 50 * int (nat ((tot + 49) div 50))"
    and "50 * int (nat ((tot + 49) div 50)) < tot + 50"
    and "(tot \<le> 50 * int j) = (nat ((tot + 49) div 50) \<le> j)"
  using assms by auto

lemma start_run_simulator:
  assumes pos: "0 < sum_list (map duration stages)"
  shows "fst (start_run t0 stages False imm c)
         = fst (stage_loop t0 stages 0
              (c\<lparr>isLoading := True, isPaused := False, stopFlag := False,
                 progress := 0, statusMessage := []\<rparr>))"
    and "simulator (snd (start_run t0 stages False imm c))
         = snd (stage_loop t0 stages 0
              (c\<lparr>isLoading := True, isPaused := False, stopFlag := False,
                 progress := 0, statusMessage := []\<rparr>))"
    and "run_total (snd (start_run t0 stages False imm c)) = sum_list (map duration stages)"
    and "on_track t0 stages
           (t0, stage_loop t0 stages 0
              (c\<lparr>isLoading := True, isPaused := False, stopFlag := False,
                 progress := 0, statusMessage := []\<rparr>))"
proof -
  let ?c1 = "c\<lparr>isLoading := True, isPaused := False, stopFlag := False, progress := 0,
               statusMessage := []\<rparr>"
  obtain c2 s where sl: "stage_loop t0 stages 0 ?c1 = (c2, s)"
    by (cases "stage_loop t0 stages 0 ?c1")
  from pos have ne: "stages \<noteq> []" by auto
  show ok: "on_track t0 stages (t0, stage_loop t0 stages 0 ?c1)"
    by (rule on_track_stage_loop [where pre = "[]"]) (use ne in simp_all)
  with pos sl have running: "sim_pc s \<noteq> SimDone"
    by (auto simp: on_track_def)
  have "stopFlag c2 = stopFlag ?c1"
    using sim_frame(1) [of t0 stages 0 ?c1] sl by simp
  then have unstopped: "\<not> stopFlag c2"
    by simp
  let ?r = "\<lparr>isLongTask = False, run_total = sum_list (map duration stages), simulator = s,
             sim_due = t0 + sim_delay (sim_pc s), main_pc = AwaitTask,
             task_pending = True, taskResult = None, taskError = JUndefined,
             settle_due = 0, outcome = None :: 'a outcome option\<rparr>"
  have waits: "enter_finally t0 c2 r' = (c2, r'\<lparr>main_pc := AwaitProgress\<rparr>)"
    if "simulator r' = s" for r' :: "'a run"
    using that running unstopped by (simp add: enter_finally_def)
  have start: "start_run t0 stages False imm c
               = (case imm of Some st \<Rightarrow> task_settle t0 c2 ?r st | None \<Rightarrow> (c2, ?r))"
    using sl by (simp add: start_run_def Let_def del: stage_loop.simps)
  have "fst (start_run t0 stages False imm c) = c2
        \<and> simulator (snd (start_run t0 stages False imm c)) = s
        \<and> run_total (snd (start_run t0 stages False imm c)) = sum_list (map duration stages)"
  proof (cases imm)
    case None
    with start show ?thesis by simp
  next
    case (Some st)
    with start show ?thesis
      by (cases st) (simp_all add: task_settle_def Let_def waits)
  qed
  then show "fst (start_run t0 stages False imm c) = fst (stage_loop t0 stages 0 ?c1)"
    and "simulator (snd (start_run t0 stages False imm c)) = snd (stage_loop t0 stages 0 ?c1)"
    and "run_total (snd (start_run t0 stages False imm c)) = sum_list (map duration stages)"
    by (simp_all add: sl)
qed

text \<open>
  While a run that is not stopped waits for its simulator, the task's settling writes
  nothing on the component and leaves the simulator as it is (line 71 only waits).
\<close>

lemma task_settle_leaves_simulator:
  assumes "\<not> stopFlag c" "sim_pc (simulator r) \<noteq> SimDone"
  shows "fst (task_settle now c r st) = c"
    and "simulator (snd (task_settle now c r st)) = simulator r"
  using assms
  by (cases st; simp add: task_settle_def enter_finally_def Let_def)+

text \<open>
  With timers on time. A run that is not a long task starts at time \<open>t0\<close> with stages whose
  durations add up to more than 0, its task pending or settled already; the run is never
  paused or stopped, nothing else writes the component, and the simulator's timers fire
  when they are due. Then after \<open>k\<close> timers
  (\<open>k > 0\<close>) the progress is \<open>min(100, elapsed / totalDuration * 100)\<close> and the message is
  the label of the stage the simulator is in (of the last stage once it has ended). Up to
  the \<open>K\<close>-th timer, \<open>K\<close> being the number of ticks that cover the total, \<open>elapsed\<close> and the
  time since \<open>t0\<close> are both \<open>50 * k\<close>. The progress is 100 from the \<open>K\<close>-th timer on and
  not before, and the \<open>K\<close>-th timer fires less than one tick after the total has passed.
\<close>

lemma simulator_reaches_full_on_time:
  assumes pos: "0 < sum_list (map duration stages)"
      and started: "start_run t0 stages False imm c = (c0, r)"
      and played: "sim_play False (run_total r) (replicate k 0) t0 (c0, simulator r)
                   = (now, c', s')"
  shows "run_total r = sum_list (map duration stages)
         \<and> (0 < k \<longrightarrow>
              progress c' = min 100 (of_nat (elapsed s') / of_int (run_total r) * 100))
         \<and> statusMessage c' = message (current_stage stages s')
         \<and> (k \<le> nat ((run_total r + 49) div 50) \<longrightarrow>
              elapsed s' = 50 * k \<and> now = t0 + 50 * int k)
         \<and> (progress c' = 100) = (nat ((run_total r + 49) div 50) \<le> k)
         \<and> run_total r \<le> 50 * int (nat ((run_total r + 49) div 50))
         \<and> 50 * int (nat ((run_total r + 49) div 50)) < run_total r + 50"
proof -
  let ?tot = "sum_list (map duration stages)"
  let ?K = "nat ((?tot + 49) div 50)"
  let ?c1 = "c\<lparr>isLoading := True, isPaused := False, stopFlag := False, progress := 0,
               statusMessage := []\<rparr>"
  note sr = start_run_simulator(1-3) [OF pos, of t0 imm c]
  from started sr have tot: "run_total r = ?tot"
    and c0: "c0 = fst (stage_loop t0 stages 0 ?c1)"
    and sim0: "simulator r = snd (stage_loop t0 stages 0 ?c1)"
    by simp_all
  from start_run_simulator(4) [OF pos, of t0 c]
  have ok0: "on_track t0 stages (t0, c0, simulator r)"
    by (simp add: c0 sim0)
  then have el0: "elapsed (simulator r) = 0"
    by (simp add: on_track_def)
  from on_track_play [OF ok0, of k] played
  have ok: "on_track t0 stages (now, c', s')"
    and cnt: "elapsed s' = 50 * k \<or> sim_pc s' = SimDone \<and> (\<exists>j<k. elapsed s' = 50 * j)"
    by (simp_all add: tot el0)
  from ok have time: "int (elapsed s') = now - t0"
    and prog: "if elapsed s' = 0 then progress c' = 0
               else progress c' = tick_progress (elapsed s') ?tot"
    and msg: "statusMessage c' = message (current_stage stages s')"
    and fin: "sim_pc s' = SimDone \<longrightarrow> ?tot \<le> int (elapsed s')"
    by (auto simp: on_track_def current_stage_def)
  have exact: "elapsed s' = 50 * k" if "k \<le> ?K"
  proof (rule ccontr)
    assume "elapsed s' \<noteq> 50 * k"
    with cnt obtain j where j: "sim_pc s' = SimDone" "j < k" "elapsed s' = 50 * j"
      by blast
    with fin have "?tot \<le> 50 * int j" by simp
    then have "?K \<le> j" using ticks_needed(3) [OF pos, of j] by simp
    with j(2) that show False by simp
  qed
  have full: "(?tot \<le> int (elapsed s')) = (?K \<le> k)"
  proof (cases "k \<le> ?K")
    case True
    from exact [OF True] show ?thesis
      using ticks_needed(3) [OF pos, of k] by simp
  next
    case False
    have "?tot \<le> int (elapsed s')"
    proof (cases "sim_pc s' = SimDone")
      case True
      with fin show ?thesis by simp
    next
      case notdone: False
      with cnt have "elapsed s' = 50 * k" by blast
      moreover from False have "?K \<le> k" by simp
      ultimately show ?thesis
        using ticks_needed(3) [OF pos, of k] by simp
    qed
    with False show ?thesis by simp
  qed
  have moved: "0 < elapsed s'" if "0 < k"
  proof (cases "k \<le> ?K")
    case True
    from exact [OF True] that show ?thesis by simp
  next
    case False
    then have "?K \<le> k" by simp
    with full pos show ?thesis by auto
  qed
  have formula: "progress c' = min 100 (of_nat (elapsed s') / of_int ?tot * 100)" if "0 < k"
    using moved [OF that] prog pos by (simp add: tick_progress_def)
  have hundred: "(progress c' = 100) = (?K \<le> k)"
  proof (cases "elapsed s' = 0")
    case True
    with prog full pos show ?thesis by auto
  next
    case False
    with prog have "progress c' = tick_progress (elapsed s') ?tot" by simp
    then show ?thesis
      using tick_progress_full [OF pos, of "elapsed s'"] full by simp
  qed
  have clock: "now = t0 + 50 * int k" if "k \<le> ?K"
    using exact [OF that] time by simp
  from formula msg exact clock hundred ticks_needed(1,2) [OF pos]
  show ?thesis
    unfolding tot by blast
qed

text \<open>
  Two stages of 100ms and 50ms: after two ticks the progress is two thirds and the second
  label is shown, after three ticks (150ms) the progress is 100 and the simulator ends.
\<close>

lemma simulator_reaches_full_on_time_example:
  "0 < sum_list (map duration [stage_x, stage_y])
   \<and> start_run 0 [stage_x, stage_y] False None idle
     = (\<lparr>isLoading = True, progress = 0, statusMessage = ''x'', isPaused = False,
         stopFlag = False\<rparr>,
        \<lparr>isLongTask = False, run_total = 150,
         simulator = \<lparr>sim_pc = Tick, sim_rest = [stage_x, stage_y], start = 0, elapsed = 0\<rparr>,
         sim_due = 50, main_pc = AwaitTask, task_pending = True, taskResult = None,
         taskError = JUndefined, settle_due = 0, outcome = (None :: nat outcome option)\<rparr>)
   \<and> sim_play False 150 (replicate 2 0) 0
         (\<lparr>isLoading = True, progress = 0, statusMessage = ''x'', isPaused = False,
           stopFlag = False\<rparr>,
          \<lparr>sim_pc = Tick, sim_rest = [stage_x, stage_y], start = 0, elapsed = 0\<rparr>)
     = (100,
        \<lparr>isLoading = True, progress = 200 / 3, statusMessage = ''y'', isPaused = False,
         stopFlag = False\<rparr>,
        \<lparr>sim_pc = Tick, sim_rest = [stage_y], start = 100, elapsed = 100\<rparr>)
   \<and> sim_play False 150 (replicate 3 0) 0
         (\<lparr>isLoading = True, progress = 0, statusMessage = ''x'', isPaused = False,
           stopFlag = False\<rparr>,
          \<lparr>sim_pc = Tick, sim_rest = [stage_x, stage_y], start = 0, elapsed = 0\<rparr>)
     = (150,
        \<lparr>isLoading = True, progress = 100, statusMessage = ''y'', isPaused = False,
         stopFlag = False\<rparr>,
        \<lparr>sim_pc = SimDone, sim_rest = [], start = 150, elapsed = 150\<rparr>)
   \<and> nat ((150 + 49) div 50) = 3"
proof -
  let ?c0 = "\<lparr>isLoading = True, progress = 0, statusMessage = ''x'', isPaused = False,
              stopFlag = False\<rparr>"
  let ?s0 = "\<lparr>sim_pc = Tick, sim_rest = [stage_x, stage_y], start = 0, elapsed = 0\<rparr>"
  let ?r = "\<lparr>isLongTask = False, run_total = 150, simulator = ?s0,
             sim_due = 50, main_pc = AwaitTask, task_pending = True, taskResult = None,
             taskError = JUndefined, settle_due = 0, outcome = (None :: nat outcome option)\<rparr>"
  let ?c2 = "\<lparr>isLoading = True, progress = 200 / 3, statusMessage = ''y'', isPaused = False,
              stopFlag = False\<rparr>"
  let ?s2 = "\<lparr>sim_pc = Tick, sim_rest = [stage_y], start = 100, elapsed = 100\<rparr>"
  let ?c3 = "\<lparr>isLoading = True, progress = 100, statusMessage = ''y'', isPaused = False,
              stopFlag = False\<rparr>"
  let ?s3 = "\<lparr>sim_pc = SimDone, sim_rest = [], start = 150, elapsed = 150\<rparr>"
  have pos: "0 < sum_list (map duration [stage_x, stage_y])"
    by (simp add: stage_x_def stage_y_def)
  have started: "start_run 0 [stage_x, stage_y] False None idle = (?c0, ?r)"
    by (simp add: controller_defs)
  have two: "sim_play False (run_total ?r) (replicate 2 0) 0 (?c0, simulator ?r) = (100, ?c2, ?s2)"
    by (simp add: controller_defs eval_nat_numeral)
  have three: "sim_play False (run_total ?r) (replicate 3 0) 0 (?c0, simulator ?r) = (150, ?c3, ?s3)"
    by (simp add: controller_defs eval_nat_numeral)
  have "(progress ?c2 = 100) = (nat ((run_total ?r + 49) div 50) \<le> 2)"
    using simulator_reaches_full_on_time [OF pos started two] by blast
  moreover have "(progress ?c3 = 100) = (nat ((run_total ?r + 49) div 50) \<le> 3)"
    using simulator_reaches_full_on_time [OF pos started three] by blast
  ultimately have "nat ((150 + 49) div 50) = 3"
    by simp
  with pos started two three show ?thesis
    by simp
qed

text \<open>
  With no stage the durations add up to 0 and the simulator ends in the call itself,
  without a tick. Five seconds into a run whose task is still pending the progress is 0,
  and the simulator has no timer left that could fire: it never reports 100.
\<close>

lemma simulator_silent_on_empty_stages:
  "exec [Start [] False None, Advance 5000] boot
     = Some \<lparr>ctl = \<lparr>isLoading = True, progress = 0, statusMessage = [], isPaused = False,
                    stopFlag = False\<rparr>,
             clock = 5000,
             runs = [\<lparr>isLongTask = False, run_total = 0,
                      simulator = \<lparr>sim_pc = SimDone, sim_rest = [], start = 0,
                                   elapsed = 0\<rparr>,
                      sim_due = 0, main_pc = AwaitTask, task_pending = True,
                      taskResult = None, taskError = JUndefined, settle_due = 0,
                      outcome = (None :: nat outcome option)\<rparr>]\<rparr>
   \<and> exec [Start [] False None, Advance 5000, SimTimer 0] (boot :: nat system) = None"
  by (simp add: controller_defs)

lemma concat_replicate_19:
  "concat (replicate 19 xs)
   = xs @ xs @ xs @ xs @ xs @ xs @ xs @ xs @ xs @ xs
     @ xs @ xs @ xs @ xs @ xs @ xs @ xs @ xs @ xs"
  by (simp add: eval_nat_numeral)

lemma concat_replicate_20:
  "concat (replicate 20 xs)
   = xs @ xs @ xs @ xs @ xs @ xs @ xs @ xs @ xs @ xs
     @ xs @ xs @ xs @ xs @ xs @ xs @ xs @ xs @ xs @ xs"
  by (simp add: eval_nat_numeral)

text \<open>
  C4. The simulator should report 100% once the durations of the stages have passed, give
  or take one tick. One stage of 1000ms in a run that is not a long task and is never
  paused or stopped, each 50ms timer firing 3ms late. Line 45 leaves the stage by the wall
  clock, at 1007ms, after 19 ticks; line 50 has counted 50 for each tick, so \<open>elapsed\<close> is
  950 and the progress 95 when the simulator ends. It has no timer left and never reports
  100.
\<close>

theorem late_timers_end_simulator_short:
  "exec (Start [stage_a] False None # concat (replicate 19 [Advance 53, SimTimer 0])) boot
     = Some \<lparr>ctl = \<lparr>isLoading = True, progress = 95, statusMessage = ''a'', isPaused = False,
                    stopFlag = False\<rparr>,
             clock = 1007,
             runs = [\<lparr>isLongTask = False, run_total = 1000,
                      simulator = \<lparr>sim_pc = SimDone, sim_rest = [], start = 1007,
                                   elapsed = 950\<rparr>,
                      sim_due = 1007, main_pc = AwaitTask, task_pending = True,
                      taskResult = None, taskError = JUndefined, settle_due = 0,
                      outcome = (None :: nat outcome option)\<rparr>]\<rparr>
   \<and> exec (Start [stage_a] False None # concat (replicate 19 [Advance 53, SimTimer 0])
             @ [Advance 5000, SimTimer 0]) (boot :: nat system) = None"
  by (simp add: concat_replicate_19 controller_defs stage_a_def)

section \<open>Pausing\<close>

lemma sim_play_paused:
  assumes "isPaused c" "\<not> stopFlag c" "sim_pc s = PauseStage \<or> sim_pc s = PauseTick"
  shows "snd (sim_play isLong tot lates now (c, s)) = (c, s)"
  using assms
proof (induction lates arbitrary: now)
  case Nil
  then show ?case by simp
next
  case (Cons late lates)
  from Cons.prems have stay: "sim_resume isLong tot t c s = (c, s)" for t
    by (auto simp: sim_resume_def)
  from Cons.prems have "sim_pc s \<noteq> SimDone" by auto
  then show ?case
    using Cons.IH [OF Cons.prems] by (simp add: Let_def stay)
qed

text \<open>
  What a pause poll does. The simulator looks at the pause flag at the head of a stage and at the
  head of each tick, not during a tick. A simulator that waits in one of the two pause
  polls while the pause flag is set and the stop flag is not stays there, however many
  polls pass and however late they come, with \<open>elapsed\<close>, progress, stage and message
  unchanged. A poll that finds the pause over goes on in the same stage with the same
  \<open>elapsed\<close>: from the poll in the tick loop to the next tick, from the poll at the head of
  a stage to showing that stage's label and its first tick. A tick that is already
  waiting for its timer when the pause is set still completes and adds 50 to \<open>elapsed\<close>.
\<close>

lemma pause_poll_holds_position:
  "(isPaused c \<and> \<not> stopFlag c \<and> (sim_pc s = PauseStage \<or> sim_pc s = PauseTick)
      \<longrightarrow> snd (sim_play isLong tot lates now (c, s)) = (c, s))
   \<and> (\<not> isPaused c \<and> sim_pc s = PauseTick
      \<longrightarrow> sim_resume isLong tot now c s = (c, s\<lparr>sim_pc := Tick\<rparr>))
   \<and> (\<not> isPaused c \<and> \<not> stopFlag c \<and> sim_pc s = PauseStage \<and> sim_rest s = st # ss
        \<and> 0 < duration st
      \<longrightarrow> sim_resume isLong tot now c s
          = (c\<lparr>statusMessage := message st\<rparr>,
             \<lparr>sim_pc = Tick, sim_rest = st # ss, start = now, elapsed = elapsed s\<rparr>))
   \<and> (sim_pc s = Tick
      \<longrightarrow> elapsed (snd (sim_resume isLong tot now c s)) = elapsed s + 50)"
proof -
  have tick: "elapsed (snd (sim_resume isLong tot now c s)) = elapsed s + 50" if "sim_pc s = Tick"
    using that
    by (simp add: sim_resume_def Let_def sim_elapsed sim_done_def
        del: tick_loop.simps split: list.splits)
  show ?thesis
    using sim_play_paused [of c s isLong tot lates now] tick
    by (auto simp: sim_resume_def)
qed

text \<open>
  A simulator paused 50ms into a stage of 100ms: three polls leave it as it is, and the
  poll after the pause continues the stage at 50ms.
\<close>

lemma pause_poll_holds_position_example:
  "snd (sim_play False 100 [0, 30, 0] 20
         (idle\<lparr>isLoading := True, isPaused := True\<rparr>,
          \<lparr>sim_pc = PauseTick, sim_rest = [stage_x], start = 0, elapsed = 50\<rparr>))
     = (idle\<lparr>isLoading := True, isPaused := True\<rparr>,
        \<lparr>sim_pc = PauseTick, sim_rest = [stage_x], start = 0, elapsed = 50\<rparr>)
   \<and> sim_resume False 100 700 (idle\<lparr>isLoading := True\<rparr>)
         \<lparr>sim_pc = PauseTick, sim_rest = [stage_x], start = 0, elapsed = 50\<rparr>
     = (idle\<lparr>isLoading := True\<rparr>,
        \<lparr>sim_pc = Tick, sim_rest = [stage_x], start = 0, elapsed = 50\<rparr>)
   \<and> sim_resume False 100 700 (idle\<lparr>isLoading := True\<rparr>)
         \<lparr>sim_pc = PauseStage, sim_rest = [stage_x], start = 0, elapsed = 50\<rparr>
     = (idle\<lparr>isLoading := True, statusMessage := ''x''\<rparr>,
        \<lparr>sim_pc = Tick, sim_rest = [stage_x], start = 700, elapsed = 50\<rparr>)
   \<and> elapsed (snd (sim_resume False 100 50 (idle\<lparr>isLoading := True, isPaused := True\<rparr>)
         \<lparr>sim_pc = Tick, sim_rest = [stage_x], start = 0, elapsed = 0\<rparr>)) = 50"
  using pause_poll_holds_position
          [where c = "idle\<lparr>isLoading := True, isPaused := True\<rparr>"
             and s = "\<lparr>sim_pc = PauseTick, sim_rest = [stage_x], start = 0, elapsed = 50\<rparr>"
             and isLong = False and tot = 100 and lates = "[0, 30, 0]" and now = 20
             and st = stage_x and ss = "[]"]
        pause_poll_holds_position
          [where c = "idle\<lparr>isLoading := True\<rparr>"
             and s = "\<lparr>sim_pc = PauseTick, sim_rest = [stage_x], start = 0, elapsed = 50\<rparr>"
             and isLong = False and tot = 100 and lates = "[]" and now = 700
             and st = stage_x and ss = "[]"]
        pause_poll_holds_position
          [where c = "idle\<lparr>isLoading := True\<rparr>"
             and s = "\<lparr>sim_pc = PauseStage, sim_rest = [stage_x], start = 0, elapsed = 50\<rparr>"
             and isLong = False and tot = 100 and lates = "[]" and now = 700
             and st = stage_x and ss = "[]"]
        pause_poll_holds_position
          [where c = "idle\<lparr>isLoading := True, isPaused := True\<rparr>"
             and s = "\<lparr>sim_pc = Tick, sim_rest = [stage_x], start = 0, elapsed = 0\<rparr>"
             and isLong = False and tot = 100 and lates = "[]" and now = 50
             and st = stage_x and ss = "[]"]
  by (simp add: idle_def stage_x_def)

text \<open>
  One stage of 50ms, Pause clicked at 20ms while the first tick waits for its timer. At
  50ms the tick completes with the pause flag still set and the stop flag clear: \<open>elapsed\<close>
  goes from 0 to 50, the progress from 0 to 100, and the simulator ends.
\<close>

lemma tick_in_flight_ends_paused_simulator:
  "exec [Start [stage_y] False None, Advance 20, ClickPause] boot
     = Some \<lparr>ctl = \<lparr>isLoading = True, progress = 0, statusMessage = ''y'', isPaused = True,
                    stopFlag = False\<rparr>,
             clock = 20,
             runs = [\<lparr>isLongTask = False, run_total = 50,
                      simulator = \<lparr>sim_pc = Tick, sim_rest = [stage_y], start = 0,
                                   elapsed = 0\<rparr>,
                      sim_due = 50, main_pc = AwaitTask, task_pending = True,
                      taskResult = None, taskError = JUndefined, settle_due = 0,
                      outcome = (None :: nat outcome option)\<rparr>]\<rparr>
   \<and> exec [Start [stage_y] False None, Advance 20, ClickPause, Advance 30, SimTimer 0] boot
     = Some \<lparr>ctl = \<lparr>isLoading = True, progress = 100, statusMessage = ''y'', isPaused = True,
                    stopFlag = False\<rparr>,
             clock = 50,
             runs = [\<lparr>isLongTask = False, run_total = 50,
                      simulator = \<lparr>sim_pc = SimDone, sim_rest = [], start = 50,
                                   elapsed = 50\<rparr>,
                      sim_due = 50, main_pc = AwaitTask, task_pending = True,
                      taskResult = None, taskError = JUndefined, settle_due = 0,
                      outcome = (None :: nat outcome option)\<rparr>]\<rparr>"
  by (simp add: controller_defs)

text \<open>
  C5. A pause should lose or skip no progress. Two stages of one second each, timers on
  time, Pause clicked at 50ms and Resume at 1000ms. Without the pause the simulator is in
  stage \<open>a\<close> after its third tick, at 150 of \<open>elapsed\<close>. With the pause, the poll of 1100ms
  finds the pause over and goes on in stage \<open>a\<close> at 100 of \<open>elapsed\<close>; but \<open>start\<close> of line 44
  has kept running through the polls of line 47, so the tick of 1150ms finds the second of
  stage \<open>a\<close> used up (line 45) and the simulator moves to stage \<open>b\<close> at 150 of \<open>elapsed\<close>:
  850ms of stage \<open>a\<close> are skipped. The simulator ends at 2150ms with 1150 of \<open>elapsed\<close> and
  the progress at 57.5.
\<close>

theorem pause_skips_rest_of_stage:
  "exec [Start [stage_a, stage_b] False None, Advance 50, SimTimer 0, Advance 50, SimTimer 0,
         Advance 50, SimTimer 0] boot
     = Some \<lparr>ctl = \<lparr>isLoading = True, progress = 15 / 2, statusMessage = ''a'',
                    isPaused = False, stopFlag = False\<rparr>,
             clock = 150,
             runs = [\<lparr>isLongTask = False, run_total = 2000,
                      simulator = \<lparr>sim_pc = Tick, sim_rest = [stage_a, stage_b], start = 0,
                                   elapsed = 150\<rparr>,
                      sim_due = 200, main_pc = AwaitTask, task_pending = True,
                      taskResult = None, taskError = JUndefined, settle_due = 0,
                      outcome = (None :: nat outcome option)\<rparr>]\<rparr>
   \<and> exec [Start [stage_a, stage_b] False None, Advance 50, SimTimer 0, ClickPause,
           Advance 50, SimTimer 0, Advance 200, SimTimer 0, Advance 200, SimTimer 0,
           Advance 200, SimTimer 0, Advance 200, SimTimer 0, Advance 100, ClickPause,
           Advance 100, SimTimer 0] boot
     = Some \<lparr>ctl = \<lparr>isLoading = True, progress = 5, statusMessage = ''a'',
                    isPaused = False, stopFlag = False\<rparr>,
             clock = 1100,
             runs = [\<lparr>isLongTask = False, run_total = 2000,
                      simulator = \<lparr>sim_pc = Tick, sim_rest = [stage_a, stage_b], start = 0,
                                   elapsed = 100\<rparr>,
                      sim_due = 1150, main_pc = AwaitTask, task_pending = True,
                      taskResult = None, taskError = JUndefined, settle_due = 0,
                      outcome = (None :: nat outcome option)\<rparr>]\<rparr>
   \<and> exec [Start [stage_a, stage_b] False None, Advance 50, SimTimer 0, ClickPause,
           Advance 50, SimTimer 0, Advance 200, SimTimer 0, Advance 200, SimTimer 0,
           Advance 200, SimTimer 0, Advance 200, SimTimer 0, Advance 100, ClickPause,
           Advance 100, SimTimer 0, Advance 50, SimTimer 0] boot
     = Some \<lparr>ctl = \<lparr>isLoading = True, progress = 15 / 2, statusMessage = ''b'',
                    isPaused = False, stopFlag = False\<rparr>,
             clock = 1150,
             runs = [\<lparr>isLongTask = False, run_total = 2000,
                      simulator = \<lparr>sim_pc = Tick, sim_rest = [stage_b], start = 1150,
                                   elapsed = 150\<rparr>,
                      sim_due = 1200, main_pc = AwaitTask, task_pending = True,
                      taskResult = None, taskError = JUndefined, settle_due = 0,
                      outcome = (None :: nat outcome option)\<rparr>]\<rparr>
   \<and> exec ([Start [stage_a, stage_b] False None, Advance 50, SimTimer 0, ClickPause,
            Advance 50, SimTimer 0, Advance 200, SimTimer 0, Advance 200, SimTimer 0,
            Advance 200, SimTimer 0, Advance 200, SimTimer 0, Advance 100, ClickPause,
            Advance 100, SimTimer 0, Advance 50, SimTimer 0]
           @ concat (replicate 20 [Advance 50, SimTimer 0])) boot
     = Some \<lparr>ctl = \<lparr>isLoading = True, progress = 115 / 2, statusMessage = ''b'',
                    isPaused = False, stopFlag = False\<rparr>,
             clock = 2150,
             runs = [\<lparr>isLongTask = False, run_total = 2000,
                      simulator = \<lparr>sim_pc = SimDone, sim_rest = [], start = 2150,
                                   elapsed = 1150\<rparr>,
                      sim_due = 2150, main_pc = AwaitTask, task_pending = True,
                      taskResult = None, taskError = JUndefined, settle_due = 0,
                      outcome = (None :: nat outcome option)\<rparr>]\<rparr>"
  by (simp add: concat_replicate_20 controller_defs stage_a_def stage_b_def)

section \<open>The settle delay\<close>

lemma epilogue_keeps_running:
  "isLoading c \<Longrightarrow> fst (epilogue c res err) = c"
  by (simp add: epilogue_def)

text \<open>
  C6. The reset after the settle delay should leave a run alone that was started during the
  delay. Run A completes at 0ms. Run B starts at 1000ms, is stopped, and its task resolves
  at 1200ms: B shows its stop message, to be kept until 2700ms. At 1500ms the settle delay
  of A ends; line 89 finds \<open>isLoading\<close> off because B is past its \<open>finally\<close> block, and
  lines 90 to 92 clear B's message, progress and stop flag.
\<close>

theorem settle_reset_clobbers_finished_run:
  "map_option (\<lambda>s. (statusMessage (ctl s), progress (ctl s), stopFlag (ctl s),
                     map main_pc (runs s), map settle_due (runs s), clock s))
     (exec [Start [] False (Some (Resolves (1::nat))), Advance 1000,
            Start [stage_x] False None, ClickStop, Advance 50, SimTimer 1, Advance 150,
            TaskSettles 1 (Resolves 2), Advance 300] boot)
     = Some (''Task stopped by user.'', 50, True, [AwaitSettle, AwaitSettle], [1500, 2700], 1500)
   \<and> map_option (\<lambda>s. (statusMessage (ctl s), progress (ctl s), stopFlag (ctl s),
                     map main_pc (runs s), map settle_due (runs s), clock s))
     (exec [Start [] False (Some (Resolves (1::nat))), Advance 1000,
            Start [stage_x] False None, ClickStop, Advance 50, SimTimer 1, Advance 150,
            TaskSettles 1 (Resolves 2), Advance 300, SettleTimer 0] boot)
     = Some ([], 0, False, [Settled, AwaitSettle], [1500, 2700], 1500)"
  by (simp add: controller_defs)

section \<open>The flags after a run\<close>




















lemma running_a_reached:
  "exec [Start [stage_x] False None, Advance 10] boot = Some running_a"
  by (simp add: running_a_def controller_defs)



section \<open>A run without stages\<close>

lemma start_run_empty:
  "start_run now [] isLong None c
   = (if isLong
      then enter_finally now
             (c\<lparr>isLoading := True, isPaused := False, stopFlag := False, progress := 0,
                statusMessage := []\<rparr>)
             \<lparr>isLongTask = isLong, run_total = 0, simulator = sim_done now 0,
              sim_due = now, main_pc = AwaitRace, task_pending = True,
              taskResult = None, taskError = JUndefined, settle_due = 0, outcome = None\<rparr>
      else (c\<lparr>isLoading := True, isPaused := False, stopFlag := False, progress := 0,
              statusMessage := []\<rparr>,
            \<lparr>isLongTask = isLong, run_total = 0, simulator = sim_done now 0,
             sim_due = now, main_pc = AwaitTask, task_pending = True,
             taskResult = None, taskError = JUndefined, settle_due = 0, outcome = None\<rparr>))"
  by (simp add: start_run_def sim_done_def)

lemma sim_play_done: "sim_pc s = SimDone \<Longrightarrow> sim_play isLong tot lates now (c, s) = (now, c, s)"
  by (cases lates) simp_all

text \<open>
  C10. With an empty list of stages \<open>totalDuration\<close> is 0 and the simulator ends inside the
  call, before any tick: it is never resumed, so line 52 with its division is never
  reached and the simulator writes nothing. A task that resolves, in a run that is not
  stopped, completes the run with progress 100 and the message \<open>Complete!\<close>: when its
  promise is settled on return, when it settles later (not a long task), and a long task
  that is pending loses the race to the ended simulator and the run completes at once.
\<close>

theorem empty_stages_complete:
  "run_total (snd (start_run now [] isLong (imm :: 'a settlement option) c)) = 0
   \<and> simulator (snd (start_run now [] isLong (imm :: 'a settlement option) c)) = sim_done now 0
   \<and> sim_play isLong 0 lates now (cx, sim_done now 0) = (now, cx, sim_done now 0)
   \<and> (case start_run now [] isLong (Some (Resolves (v :: 'a))) c of
         (c', r') \<Rightarrow> progress c' = 100 \<and> statusMessage c' = ''Complete!''
                     \<and> main_pc r' = AwaitSettle \<and> taskResult r' = Some v)
   \<and> (\<not> stopFlag cx \<longrightarrow>
        (case task_settle later cx (snd (start_run now [] False None c)) (Resolves (v :: 'a)) of
           (c', r') \<Rightarrow> progress c' = 100 \<and> statusMessage c' = ''Complete!''
                       \<and> main_pc r' = AwaitSettle \<and> taskResult r' = Some v))
   \<and> (case start_run now [] True (None :: 'a settlement option) c of
         (c', r') \<Rightarrow> progress c' = 100 \<and> statusMessage c' = ''Complete!''
                     \<and> main_pc r' = AwaitSettle)"
proof -
  have a: "run_total (snd (start_run now [] isLong (imm :: 'a settlement option) c)) = 0
           \<and> simulator (snd (start_run now [] isLong (imm :: 'a settlement option) c)) = sim_done now 0"
    by (cases imm; cases isLong)
       (auto simp: start_run_def task_settle_def enter_finally_def finish_finally_def sim_done_def
             Let_def split: settlement.splits)
  have b: "sim_play isLong 0 lates now (cx, sim_done now 0) = (now, cx, sim_done now 0)"
    by (rule sim_play_done) (simp add: sim_done_def)
  have c: "(case start_run now [] isLong (Some (Resolves (v :: 'a))) c of
         (c', r') \<Rightarrow> progress c' = 100 \<and> statusMessage c' = ''Complete!''
                     \<and> main_pc r' = AwaitSettle \<and> taskResult r' = Some v)"
    by (simp add: start_run_def task_settle_def enter_finally_def finish_finally_def
        finally_block_def sim_done_def)
  have d: "\<not> stopFlag cx \<longrightarrow>
        (case task_settle later cx (snd (start_run now [] False None c)) (Resolves (v :: 'a)) of
           (c', r') \<Rightarrow> progress c' = 100 \<and> statusMessage c' = ''Complete!''
                       \<and> main_pc r' = AwaitSettle \<and> taskResult r' = Some v)"
    by (simp add: start_run_empty task_settle_def enter_finally_def finish_finally_def
        finally_block_def sim_done_def)
  have e: "(case start_run now [] True (None :: 'a settlement option) c of
         (c', r') \<Rightarrow> progress c' = 100 \<and> statusMessage c' = ''Complete!''
                     \<and> main_pc r' = AwaitSettle)"
    by (simp add: start_run_empty enter_finally_def finish_finally_def
        finally_block_def sim_done_def)
  from a b c d e show ?thesis by blast
qed

text \<open>
  No stage, a task that resolves to 7 after 50ms: the run shows \<open>Complete!\<close> at 100 and
  returns 7.
\<close>

theorem empty_stages_complete_witness:
  "\<not> stopFlag (fst (start_run 0 [] False None idle :: controller \<times> nat run))
   \<and> fst (task_settle 50 (fst (start_run 0 [] False None idle :: controller \<times> nat run))
            (snd (start_run 0 [] False None idle)) (Resolves (7::nat)))
     = \<lparr>isLoading = False, progress = 100, statusMessage = ''Complete!'', isPaused = False,
        stopFlag = False\<rparr>
   \<and> map_option (\<lambda>s. (ctl s, map outcome (runs s)))
       (exec [Start [] False None, Advance 50, TaskSettles 0 (Resolves (7::nat)),
              Advance 1500, SettleTimer 0] boot)
     = Some (idle, [Some (Returned (Some 7))])"
proof -
  let ?c1 = "fst (start_run 0 [] False None idle :: controller \<times> nat run)"
  have unstopped: "\<not> stopFlag ?c1"
    by (simp add: start_run_empty idle_def)
  note inst = empty_stages_complete [where now = 0 and isLong = False and imm = None
      and c = idle and cx = ?c1 and later = 50 and v = "7::nat" and lates = "[]"]
  from inst unstopped
  have "case task_settle 50 ?c1 (snd (start_run 0 [] False None idle)) (Resolves (7::nat)) of
          (c', r') \<Rightarrow> progress c' = 100 \<and> statusMessage c' = ''Complete!''
                      \<and> main_pc r' = AwaitSettle \<and> taskResult r' = Some 7"
    by (elim conjE impE) assumption+
  then have "progress (fst (task_settle 50 ?c1 (snd (start_run 0 [] False None idle))
                             (Resolves (7::nat)))) = 100"
    by (simp add: case_prod_beta)
  moreover have "fst (task_settle 50 ?c1 (snd (start_run 0 [] False None idle)) (Resolves (7::nat)))
     = \<lparr>isLoading = False, progress = 100, statusMessage = ''Complete!'', isPaused = False,
        stopFlag = False\<rparr>"
    by (simp add: controller_defs)
  moreover have "map_option (\<lambda>s. (ctl s, map outcome (runs s)))
       (exec [Start [] False None, Advance 50, TaskSettles 0 (Resolves (7::nat)),
              Advance 1500, SettleTimer 0] boot)
     = Some (idle, [Some (Returned (Some 7))])"
    by (simp add: controller_defs)
  ultimately show ?thesis using unstopped by simp
qed

section \<open>The playback engine: sessions\<close>

lemma player_ok_new: "player_ok (new_player ctx susp)"
  by (simp add: player_ok_def new_player_def)

lemma player_ok_pause: "player_ok p \<Longrightarrow> player_ok (pauseCurrentTrack now p)"
  by (auto simp: player_ok_def pauseCurrentTrack_def nth_list_update split: option.splits)

lemma player_ok_animate: "player_ok p \<Longrightarrow> frames p = [] \<Longrightarrow> player_ok (animateVisualizer now freq p)"
  by (auto simp: player_ok_def animateVisualizer_def Let_def)

lemma player_ok_play: "player_ok p \<Longrightarrow> \<not> isPlaying p \<Longrightarrow> player_ok (playCurrentTrack now freq p)"
  by (auto simp: player_ok_def playCurrentTrack_def animateVisualizer_def Let_def nth_append split: option.splits)

lemma player_ok_toggle: "player_ok p \<Longrightarrow> player_ok (togglePlay now freq p)"
  by (simp add: togglePlay_def player_ok_pause player_ok_play)

lemma player_ok_update: "player_ok p \<Longrightarrow> player_ok (updateTrack t now p)"
  by (auto simp: player_ok_def updateTrack_def pauseCurrentTrack_def nth_list_update split: option.splits)

lemma player_ok_ended: "player_ok p \<Longrightarrow> player_ok (source_ended now p)"
  by (auto simp: player_ok_def source_ended_def pauseCurrentTrack_def nth_list_update split: option.splits)

lemma player_ok_frame:
  assumes ok: "player_ok p" and mem: "i \<in> set (frames p)"
  shows "player_ok (animateVisualizer now freq (p\<lparr>frames := removeAll i (frames p)\<rparr>))"
proof -
  from ok have "frames p = [] \<or> (isPlaying p \<and> frames p = [animationFrameId p])"
    unfolding player_ok_def by blast
  with mem have fr: "frames p = [animationFrameId p]" by auto
  with mem have "i = animationFrameId p" by simp
  with fr have gone: "removeAll i (frames p) = []" by simp
  from ok have "player_ok (p\<lparr>frames := []\<rparr>)" by (auto simp: player_ok_def)
  then show ?thesis unfolding gone by (rule player_ok_animate) simp
qed

lemma player_ok_step: "player_ok p \<Longrightarrow> player_step e p = Some p' \<Longrightarrow> player_ok p'"
  by (cases e) (auto simp: player_ok_toggle player_ok_update player_ok_ended player_ok_frame split: if_splits)

lemma player_ok_exec: "player_ok p \<Longrightarrow> player_exec es p = Some p' \<Longrightarrow> player_ok p'"
proof (induction es arbitrary: p)
  case Nil
  then show ?case by simp
next
  case (Cons e es)
  then show ?case by (auto split: option.splits dest: player_ok_step)
qed

lemma player_ok_reached: "player_exec es (new_player ctx susp) = Some p \<Longrightarrow> player_ok p"
  using player_ok_exec player_ok_new by blast

lemma active_nodes_empty:
  "(\<forall>n < length (nodes p). stopped (nodes p ! n) \<and> \<not> onended (nodes p ! n)) \<Longrightarrow> active_nodes p = []"
  by (simp add: active_nodes_def filter_empty_conv)

lemma active_nodes_le_1:
  assumes "player_ok p"
  shows "length (active_nodes p) \<le> 1"
proof (cases "currentSourceNode p")
  case None
  with assms have "active_nodes p = []"
    by (intro active_nodes_empty) (simp add: player_ok_def)
  then show ?thesis by simp
next
  case (Some m)
  with assms have "\<forall>n \<in> set [0 ..< length (nodes p)]. (\<not> stopped (nodes p ! n) \<or> onended (nodes p ! n)) \<longrightarrow> n = m"
    unfolding player_ok_def by auto
  then have "set (active_nodes p) \<subseteq> {m}"
    by (auto simp: active_nodes_def)
  moreover have "distinct (active_nodes p)"
    by (simp add: active_nodes_def)
  ultimately have "card (set (active_nodes p)) \<le> card {m}" 
    by (intro card_mono) auto
  with \<open>distinct (active_nodes p)\<close> show ?thesis
    by (simp add: distinct_card)
qed

lemma pause_clears:
  assumes ok: "player_ok p"
  shows "currentSourceNode (pauseCurrentTrack now p) = None"
    and "\<not> isPlaying (pauseCurrentTrack now p)"
    and "frames (pauseCurrentTrack now p) = []"
    and "length (nodes (pauseCurrentTrack now p)) = length (nodes p)"
    and "n < length (nodes p) \<Longrightarrow> stopped (nodes (pauseCurrentTrack now p) ! n) \<and> \<not> onended (nodes (pauseCurrentTrack now p) ! n)"
    and "currentTrack (pauseCurrentTrack now p) = currentTrack p"
    and "audioContext (pauseCurrentTrack now p) = audioContext p"
  using ok unfolding player_ok_def pauseCurrentTrack_def
  by (auto simp: nth_list_update split: option.splits)

lemma playing_a_reached:
  "player_exec [UpdateTrack trackA 0, TogglePlay 1 [255, 0]] (new_player True False) = Some playing_a"
  by (simp add: playing_a_def trackA_def new_player_def updateTrack_def pauseCurrentTrack_def
      togglePlay_def playCurrentTrack_def animateVisualizer_def)

text \<open>
  C8. In every state the shell can reach, \<open>updateTrack\<close> leaves every source made so far
  stopped and without its \<open>ended\<close> handler, so the old session is torn down before any
  new source can be started; afterwards nothing is playing, the displayed time and the
  paused offset are 0 and the new track is loaded. In every reachable state at most one
  source is active, and once a source's \<open>ended\<close> handler has run no source has a handler
  left, so no session's handler runs twice.
\<close>

theorem updateTrack_resets_session:
  assumes reached: "player_exec es (new_player ctx susp) = Some p"
  shows "map (\<lambda>nd. (stopped nd, onended nd)) (nodes (updateTrack t now p))
           = replicate (length (nodes p)) (True, False)
         \<and> active_nodes (updateTrack t now p) = []
         \<and> currentSourceNode (updateTrack t now p) = None
         \<and> frames (updateTrack t now p) = []
         \<and> \<not> isPlaying (updateTrack t now p)
         \<and> currentTime (updateTrack t now p) = 0
         \<and> pausedTime (updateTrack t now p) = 0
         \<and> currentTrack (updateTrack t now p) = t
         \<and> length (active_nodes p) \<le> 1
         \<and> (case player_step (Ended n now') p of
               None \<Rightarrow> True
             | Some p' \<Rightarrow> active_nodes p' = [])"
proof -
  have ok: "player_ok p"
    using reached by (rule player_ok_reached)
  let ?q = "pauseCurrentTrack now p"
  have upd: "updateTrack t now p
             = ?q\<lparr>currentTrack := t, isPlaying := False, currentTime := 0, pausedTime := 0\<rparr>"
    by (simp add: updateTrack_def)
  have all_off: "\<forall>k < length (nodes ?q). stopped (nodes ?q ! k) \<and> \<not> onended (nodes ?q ! k)"
    using pause_clears(4,5) [OF ok] by simp
  have len: "length (nodes ?q) = length (nodes p)"
    by (rule pause_clears(4) [OF ok])
  have "map (\<lambda>nd. (stopped nd, onended nd)) (nodes ?q) = replicate (length (nodes p)) (True, False)"
    using all_off len by (intro nth_equalityI) auto
  then have c1: "map (\<lambda>nd. (stopped nd, onended nd)) (nodes (updateTrack t now p))
           = replicate (length (nodes p)) (True, False)"
    by (simp add: upd)
  have c2: "active_nodes (updateTrack t now p) = []"
    by (rule active_nodes_empty) (use all_off in \<open>simp add: upd\<close>)
  have c3: "currentSourceNode (updateTrack t now p) = None" "frames (updateTrack t now p) = []"
    using pause_clears(1,3) [OF ok] by (simp_all add: upd)
  have c4: "\<not> isPlaying (updateTrack t now p)" "currentTime (updateTrack t now p) = 0"
    "pausedTime (updateTrack t now p) = 0" "currentTrack (updateTrack t now p) = t"
    by (simp_all add: upd)
  have c5: "length (active_nodes p) \<le> 1"
    using ok by (rule active_nodes_le_1)
  have c6: "(case player_step (Ended n now') p of None \<Rightarrow> True | Some p' \<Rightarrow> active_nodes p' = [])"
  proof (cases "n < length (nodes p) \<and> onended (nodes p ! n)")
    case False
    then show ?thesis by auto
  next
    case True
    with ok have "isPlaying p"
      unfolding player_ok_def by blast
    then have "source_ended now' p = (pauseCurrentTrack now' p)\<lparr>currentTime := 0, pausedTime := 0\<rparr>"
      by (simp add: source_ended_def)
    moreover have "active_nodes ((pauseCurrentTrack now' p)\<lparr>currentTime := 0, pausedTime := 0\<rparr>) = []"
      by (rule active_nodes_empty) (use pause_clears(4,5) [OF ok, where now = now'] in simp)
    ultimately show ?thesis using True by simp
  qed
  from c1 c2 c3 c4 c5 c6 show ?thesis by blast
qed

theorem updateTrack_resets_session_witness:
  "player_exec [UpdateTrack trackA 0, TogglePlay 1 [255, 0]] (new_player True False) = Some playing_a
   \<and> map (\<lambda>nd. (stopped nd, onended nd)) (nodes (updateTrack trackB 5 playing_a)) = [(True, False)]
   \<and> active_nodes (updateTrack trackB 5 playing_a) = []
   \<and> currentSourceNode (updateTrack trackB 5 playing_a) = None
   \<and> \<not> isPlaying (updateTrack trackB 5 playing_a)
   \<and> currentTime (updateTrack trackB 5 playing_a) = 0
   \<and> pausedTime (updateTrack trackB 5 playing_a) = 0
   \<and> length (active_nodes playing_a) \<le> 1
   \<and> player_step (Ended 0 31) playing_a \<noteq> None
   \<and> active_nodes (the (player_step (Ended 0 31) playing_a)) = []"
proof -
  have fires: "player_step (Ended 0 31) playing_a \<noteq> None"
    by (simp add: playing_a_def)
  have len: "length (nodes playing_a) = 1"
    by (simp add: playing_a_def)
  show ?thesis
    using updateTrack_resets_session [OF playing_a_reached, of trackB 5 0 31]
      playing_a_reached fires len
    by (auto split: option.splits)
qed

text \<open>
  C7. When the browser runs a source's \<open>ended\<close> handler (which it can only while the
  handler is attached), the shell is playing that source, and the handler does what pause
  does: it stores the elapsed time, stops the source, detaches the handler, cancels the
  requested animation frame and resets the bars. It then sets the paused offset and the
  displayed time to 0, so the next Play starts a source at offset 0.
\<close>

theorem natural_end_is_pause_and_rewind:
  assumes reached: "player_exec es (new_player ctx susp) = Some p"
      and fires: "player_step (Ended n now) p = Some p'"
  shows "isPlaying p \<and> currentSourceNode p = Some n
         \<and> p' = (pauseCurrentTrack now p)\<lparr>currentTime := 0, pausedTime := 0\<rparr>
         \<and> pausedTime (pauseCurrentTrack now p) = now - trackStartTime p
         \<and> stopped (nodes p' ! n) \<and> \<not> onended (nodes p' ! n)
         \<and> currentSourceNode p' = None \<and> \<not> isPlaying p'
         \<and> frames p' = [] \<and> barHeights p' = replicate 50 2
         \<and> pausedTime p' = 0 \<and> currentTime p' = 0
         \<and> map start_offset (nodes (togglePlay now' freq p')) = map start_offset (nodes p') @ [0]"
proof -
  have ok: "player_ok p"
    using reached by (rule player_ok_reached)
  from fires have n: "n < length (nodes p)" "onended (nodes p ! n)" and p': "p' = source_ended now p"
    by (auto split: if_splits)
  from ok n have cur: "currentSourceNode p = Some n"
    unfolding player_ok_def by blast
  with ok have playing: "isPlaying p" and ctx: "audioContext p"
    and buf: "audioBuffer (currentTrack p) \<noteq> None"
    unfolding player_ok_def by auto
  let ?q = "pauseCurrentTrack now p"
  from playing p' have eq: "p' = ?q\<lparr>currentTime := 0, pausedTime := 0\<rparr>"
    by (simp add: source_ended_def)
  have stored: "pausedTime ?q = now - trackStartTime p" "barHeights ?q = replicate 50 2"
    using cur ctx by (simp_all add: pauseCurrentTrack_def)
  have off: "stopped (nodes p' ! n) \<and> \<not> onended (nodes p' ! n)"
    using pause_clears(5) [OF ok n(1), of now] by (simp add: eq)
  have cleared: "currentSourceNode p' = None" "\<not> isPlaying p'" "frames p' = []"
    using pause_clears(1,2,3) [OF ok, of now] by (simp_all add: eq)
  have rewound: "pausedTime p' = 0" "currentTime p' = 0" "barHeights p' = replicate 50 2"
    using stored by (simp_all add: eq)
  have keep: "audioBuffer (currentTrack p') \<noteq> None" "audioContext p'"
    using buf ctx pause_clears(6,7) [OF ok, of now] by (simp_all add: eq)
  have replay: "map start_offset (nodes (togglePlay now' freq p')) = map start_offset (nodes p') @ [0]"
    using keep cleared rewound
    by (auto simp: togglePlay_def playCurrentTrack_def animateVisualizer_def Let_def)
  from playing cur eq stored off cleared rewound replay show ?thesis by blast
qed

theorem natural_end_is_pause_and_rewind_witness:
  "player_exec [UpdateTrack trackA 0, TogglePlay 1 [255, 0]] (new_player True False) = Some playing_a
   \<and> player_step (Ended 0 31) playing_a
       = Some ((pauseCurrentTrack 31 playing_a)\<lparr>currentTime := 0, pausedTime := 0\<rparr>)
   \<and> pausedTime (pauseCurrentTrack 31 playing_a) = 30
   \<and> map start_offset
         (nodes (togglePlay 40 []
            ((pauseCurrentTrack 31 playing_a)\<lparr>currentTime := 0, pausedTime := 0\<rparr>)))
       = [0, 0]"
proof -
  have fires: "player_step (Ended 0 31) playing_a = Some (source_ended 31 playing_a)"
    by (simp add: playing_a_def)
  note nat_end = natural_end_is_pause_and_rewind [OF playing_a_reached fires, of 40 "[]"]
  have eq: "source_ended 31 playing_a
            = (pauseCurrentTrack 31 playing_a)\<lparr>currentTime := 0, pausedTime := 0\<rparr>"
    using nat_end by blast
  have "pausedTime (pauseCurrentTrack 31 playing_a) = 31 - trackStartTime playing_a"
    using nat_end by blast
  then have stored: "pausedTime (pauseCurrentTrack 31 playing_a) = 30"
    by (simp add: playing_a_def)
  have "map start_offset (nodes (togglePlay 40 [] (source_ended 31 playing_a)))
        = map start_offset (nodes (source_ended 31 playing_a)) @ [0]"
    using nat_end by blast
  moreover have "map start_offset (nodes (source_ended 31 playing_a)) = [0]"
    by (simp add: source_ended_def playing_a_def pauseCurrentTrack_def)
  ultimately have replay:
    "map start_offset (nodes (togglePlay 40 [] (source_ended 31 playing_a))) = [0, 0]"
    by simp
  show ?thesis
    using playing_a_reached stored replay fires unfolding eq by simp
qed

end
